theory Spec2Isabelle
  imports Complex_Main "HOL-Library.Sublist"
begin

section \<open>The semantic compressor of AWOC (scripts/semantic-compressor.py)\<close>

text \<open>
  The theory embeds the class \<open>SemanticCompressor\<close>: the six compression strategies,
  the strategy selection, the sequential pipeline of \<open>compress_content\<close> and its cache.

  Modelling decisions that hold throughout:
  \<^item> a Python \<open>str\<close> is a \<open>string\<close>; a character is read as the code point of the same
    number, so the model covers the texts over U+0000 .. U+00FF, and \<open>length\<close> is
    Python's \<open>len\<close> on them;
  \<^item> a Python \<open>float\<close> is a \<open>real\<close>: the source only multiplies, divides and compares
    a handful of ratios of lengths and decimal constants;
  \<^item> an exception is a value \<open>Inl e\<close> of a sum type;
  \<^item> the module \<open>re\<close> is a backtracking matcher over the pattern constructs the source
    uses, with the patterns of the source written as values of the type \<open>regex\<close>;
  \<^item> what the source takes from its environment (the MD5 digest, the wall clock, the
    text of a float in an f-string) is a parameter of the model;
  \<^item> \<open>analyze_content\<close> is called by \<open>compress_content\<close> for a value that is never
    read, has no effect and raises nothing, so the pipeline is modelled without it.
\<close>

subsection \<open>Characters and the methods of \<open>str\<close>\<close>

definition char_code :: "char \<Rightarrow> nat" where
  "char_code c = of_char c"

text \<open>\<open>str.isspace\<close> on one character, which is also the class \<open>\s\<close> of \<open>re\<close>.\<close>

definition is_space :: "char \<Rightarrow> bool" where
  "is_space c = (let n = char_code c in
     (9 \<le> n \<and> n \<le> 13) \<or> (28 \<le> n \<and> n \<le> 32) \<or> n = 133 \<or> n = 160)"

text \<open>The class \<open>\w\<close>: the alphanumeric characters and the underscore.\<close>

definition is_word :: "char \<Rightarrow> bool" where
  "is_word c = (let n = char_code c in
     (48 \<le> n \<and> n \<le> 57) \<or> (65 \<le> n \<and> n \<le> 90) \<or> n = 95 \<or> (97 \<le> n \<and> n \<le> 122)
     \<or> n = 170 \<or> n = 178 \<or> n = 179 \<or> n = 181 \<or> n = 185 \<or> n = 186
     \<or> (188 \<le> n \<and> n \<le> 190) \<or> (192 \<le> n \<and> n \<le> 214) \<or> (216 \<le> n \<and> n \<le> 246)
     \<or> 248 \<le> n)"

definition lower_char :: "char \<Rightarrow> char" where
  "lower_char c = (let n = char_code c in
     if (65 \<le> n \<and> n \<le> 90) \<or> (192 \<le> n \<and> n \<le> 222 \<and> n \<noteq> 215)
     then char_of (n + 32) else c)"

definition lower :: "string \<Rightarrow> string" where
  "lower s = map lower_char s"

abbreviation NL :: char where "NL \<equiv> CHR 0x0A"
abbreviation CR :: char where "CR \<equiv> CHR 0x0D"
abbreviation TAB :: char where "TAB \<equiv> CHR 0x09"
abbreviation BT :: char where "BT \<equiv> CHR 0x60"

text \<open>\<open>s.split(d)\<close> for a one-character separator: never the empty list.\<close>

fun split_on :: "char \<Rightarrow> string \<Rightarrow> string list" where
  "split_on d [] = [[]]"
| "split_on d (c # cs) =
     (case split_on d cs of
        [] \<Rightarrow> [[c]]
      | l # ls \<Rightarrow> if c = d then [] # l # ls else (c # l) # ls)"

fun join :: "string \<Rightarrow> string list \<Rightarrow> string" where
  "join sep [] = []"
| "join sep [l] = l"
| "join sep (l # l' # ls) = l @ sep @ join sep (l' # ls)"

definition lstrip :: "string \<Rightarrow> string" where
  "lstrip s = dropWhile is_space s"

definition rstrip :: "string \<Rightarrow> string" where
  "rstrip s = rev (dropWhile is_space (rev s))"

definition strip :: "string \<Rightarrow> string" where
  "strip s = rstrip (lstrip s)"

text \<open>\<open>s.replace(old, new, 1)\<close> and \<open>s.replace(old, new)\<close>.\<close>

fun replace_first :: "string \<Rightarrow> string \<Rightarrow> string \<Rightarrow> string" where
  "replace_first old new [] = (if old = [] then new else [])"
| "replace_first old new (c # cs) =
     (if prefix old (c # cs) then new @ drop (length old) (c # cs)
      else c # replace_first old new cs)"

function replace_all :: "string \<Rightarrow> string \<Rightarrow> string \<Rightarrow> string" where
  "replace_all old new [] = (if old = [] then new else [])"
| "replace_all old new (c # cs) =
     (if old = [] then new @ c # replace_all old new cs
      else if prefix old (c # cs) then
        new @ replace_all old new (drop (length old) (c # cs))
      else c # replace_all old new cs)"
  by pat_completeness auto
termination
  by (relation "measure (\<lambda>(old, new, s). length s)") auto

text \<open>The decimal text of a natural number, as an f-string prints it.\<close>

definition digit_char :: "nat \<Rightarrow> char" where
  "digit_char d = ''0123456789'' ! d"

fun str_nat :: "nat \<Rightarrow> string" where
  "str_nat n =
     (if n < 10 then [digit_char n] else str_nat (n div 10) @ [digit_char (n mod 10)])"

declare str_nat.simps [simp del]

subsection \<open>The patterns of \<open>re\<close> and their matcher\<close>

text \<open>
  The constructs the patterns of the source are written in: a literal character, a
  character class, concatenation, alternation, the greedy and the lazy star, a capturing
  group, a backreference, \<open>\b\<close>, a positive lookahead and \<open>\Z\<close>.
\<close>

datatype regex =
    Eps
  | Chr char
  | Cls "char \<Rightarrow> bool"
  | Seq regex regex
  | Alt regex regex
  | Star regex
  | LazyStar regex
  | Group nat regex
  | Backref nat
  | WordB
  | Look regex
  | EndZ

text \<open>
  A matcher state: the character before the position (for \<open>\b\<close>), the text from the
  position on, the number of characters matched so far, the groups closed so far (the
  latest first) and \<open>lastindex\<close>, the group closed last.
\<close>

datatype mstate = MState (prev: "char option") (rest: string) (pos: nat)
  (caps: "(nat \<times> string) list") (lastindex: "nat option")

text \<open>With \<open>re.IGNORECASE\<close> (\<open>ic\<close>) a literal matches both cases of its letter.\<close>

definition chr_eq :: "bool \<Rightarrow> char \<Rightarrow> char \<Rightarrow> bool" where
  "chr_eq ic c x = (if ic then lower_char x = lower_char c else x = c)"

definition step_if ::
  "(char \<Rightarrow> bool) \<Rightarrow> mstate \<Rightarrow> (mstate \<Rightarrow> mstate option) \<Rightarrow> mstate option" where
  "step_if P st k = (case rest st of
      [] \<Rightarrow> None
    | x # xs \<Rightarrow>
        if P x then k (MState (Some x) xs (Suc (pos st)) (caps st) (lastindex st))
        else None)"

text \<open>
  The matcher is written with a continuation \<open>k\<close> for the rest of the pattern: a
  failure of \<open>k\<close> makes the matcher try its next alternative, which is the backtracking
  of \<open>re\<close>. A star runs its body at most once per character left (\<open>n\<close> below), and an
  iteration that matches no character ends the repetition.
\<close>

primrec star_g :: "nat \<Rightarrow> (mstate \<Rightarrow> (mstate \<Rightarrow> mstate option) \<Rightarrow> mstate option)
    \<Rightarrow> mstate \<Rightarrow> (mstate \<Rightarrow> mstate option) \<Rightarrow> mstate option" where
  "star_g 0 m st k = k st"
| "star_g (Suc n) m st k =
     (case m st (\<lambda>st'. if pos st < pos st' then star_g n m st' k else None) of
        Some x \<Rightarrow> Some x
      | None \<Rightarrow> k st)"

primrec star_l :: "nat \<Rightarrow> (mstate \<Rightarrow> (mstate \<Rightarrow> mstate option) \<Rightarrow> mstate option)
    \<Rightarrow> mstate \<Rightarrow> (mstate \<Rightarrow> mstate option) \<Rightarrow> mstate option" where
  "star_l 0 m st k = k st"
| "star_l (Suc n) m st k =
     (case k st of
        Some x \<Rightarrow> Some x
      | None \<Rightarrow> m st (\<lambda>st'. if pos st < pos st' then star_l n m st' k else None))"

definition word_boundary :: "mstate \<Rightarrow> bool" where
  "word_boundary st =
     ((case prev st of None \<Rightarrow> False | Some c \<Rightarrow> is_word c)
      \<noteq> (case rest st of [] \<Rightarrow> False | c # _ \<Rightarrow> is_word c))"

definition backref_step ::
  "bool \<Rightarrow> string \<Rightarrow> mstate \<Rightarrow> (mstate \<Rightarrow> mstate option) \<Rightarrow> mstate option" where
  "backref_step ic g st k =
     (if length g \<le> length (rest st)
         \<and> list_all2 (chr_eq ic) g (take (length g) (rest st))
      then k (MState (if g = [] then prev st else Some (last (take (length g) (rest st))))
                (drop (length g) (rest st)) (pos st + length g) (caps st) (lastindex st))
      else None)"

primrec mt ::
  "bool \<Rightarrow> regex \<Rightarrow> mstate \<Rightarrow> (mstate \<Rightarrow> mstate option) \<Rightarrow> mstate option" where
  "mt ic Eps st k = k st"
| "mt ic (Chr c) st k = step_if (chr_eq ic c) st k"
| "mt ic (Cls P) st k = step_if P st k"
| "mt ic (Seq r1 r2) st k = mt ic r1 st (\<lambda>st'. mt ic r2 st' k)"
| "mt ic (Alt r1 r2) st k =
     (case mt ic r1 st k of Some x \<Rightarrow> Some x | None \<Rightarrow> mt ic r2 st k)"
| "mt ic (Star r) st k = star_g (length (rest st)) (mt ic r) st k"
| "mt ic (LazyStar r) st k = star_l (length (rest st)) (mt ic r) st k"
| "mt ic (Group n r) st k =
     mt ic r st (\<lambda>st'. k (MState (prev st') (rest st') (pos st')
        ((n, take (pos st' - pos st) (rest st)) # caps st') (Some n)))"
| "mt ic (Backref n) st k =
     (case map_of (caps st) n of None \<Rightarrow> None | Some g \<Rightarrow> backref_step ic g st k)"
| "mt ic WordB st k = (if word_boundary st then k st else None)"
| "mt ic (Look r) st k = (case mt ic r st Some of None \<Rightarrow> None | Some _ \<Rightarrow> k st)"
| "mt ic EndZ st k = (if rest st = [] then k st else None)"

text \<open>
  One attempt at a position. \<open>must_advance\<close> is set after an empty match: the next
  match at the same position must not be empty.
\<close>

definition re_match_at ::
  "bool \<Rightarrow> regex \<Rightarrow> char option \<Rightarrow> string \<Rightarrow> bool \<Rightarrow> mstate option" where
  "re_match_at ic r p s must_advance =
     mt ic r (MState p s 0 [] None)
       (\<lambda>st. if must_advance \<and> pos st = 0 then None else Some st)"

text \<open>
  The scan that \<open>re.sub\<close>, \<open>re.finditer\<close>, \<open>re.findall\<close> and \<open>re.split\<close> share: the
  leftmost match, then the leftmost match after it, and so on; a character no match
  covers is copied.
\<close>

datatype token = Copy char | Match string mstate

function scan :: "bool \<Rightarrow> regex \<Rightarrow> char option \<Rightarrow> string \<Rightarrow> bool \<Rightarrow> token list" where
  "scan ic r p [] ma =
     (case re_match_at ic r p [] ma of
        Some m \<Rightarrow> [Match [] m]
      | None \<Rightarrow> [])"
| "scan ic r p (c # cs) ma =
     (case re_match_at ic r p (c # cs) ma of
        Some m \<Rightarrow>
          if 0 < pos m then
            Match (take (pos m) (c # cs)) m
              # scan ic r (prev m) (drop (pos m) (c # cs)) False
          else if \<not> ma then Match [] m # scan ic r p (c # cs) True
          else Copy c # scan ic r (Some c) cs False
      | None \<Rightarrow> Copy c # scan ic r (Some c) cs False)"
  by pat_completeness auto
termination
  by (relation "measure (\<lambda>(ic, r, p, s, ma). 2 * length s + (if ma then 0 else 1))") auto

fun sub_tokens :: "(string \<Rightarrow> mstate \<Rightarrow> string) \<Rightarrow> token list \<Rightarrow> string" where
  "sub_tokens repl [] = []"
| "sub_tokens repl (Copy c # ts) = c # sub_tokens repl ts"
| "sub_tokens repl (Match w m # ts) = repl w m @ sub_tokens repl ts"

text \<open>\<open>re.sub(r, repl, s)\<close> for a function \<open>repl\<close> of the match, and for a fixed text.\<close>

definition re_sub ::
  "bool \<Rightarrow> regex \<Rightarrow> (string \<Rightarrow> mstate \<Rightarrow> string) \<Rightarrow> string \<Rightarrow> string" where
  "re_sub ic r repl s = sub_tokens repl (scan ic r None s False)"

definition re_sub_const :: "bool \<Rightarrow> regex \<Rightarrow> string \<Rightarrow> string \<Rightarrow> string" where
  "re_sub_const ic r rep s = re_sub ic r (\<lambda>w m. rep) s"

fun matches_of :: "token list \<Rightarrow> (string \<times> mstate) list" where
  "matches_of [] = []"
| "matches_of (Copy c # ts) = matches_of ts"
| "matches_of (Match w m # ts) = (w, m) # matches_of ts"

text \<open>\<open>re.finditer\<close>: each match with its text (\<open>m.group()\<close>) and its state.\<close>

definition re_finditer :: "bool \<Rightarrow> regex \<Rightarrow> string \<Rightarrow> (string \<times> mstate) list" where
  "re_finditer ic r s = matches_of (scan ic r None s False)"

definition group :: "mstate \<Rightarrow> nat \<Rightarrow> string option" where
  "group m n = map_of (caps m) n"

text \<open>
  \<open>re.findall\<close> for a pattern without a group (the texts of the matches) and for a
  pattern with one group (the text of the group, empty when it took no part).
\<close>

definition re_findall0 :: "bool \<Rightarrow> regex \<Rightarrow> string \<Rightarrow> string list" where
  "re_findall0 ic r s = map fst (re_finditer ic r s)"

definition re_findall1 :: "bool \<Rightarrow> regex \<Rightarrow> string \<Rightarrow> string list" where
  "re_findall1 ic r s =
     map (\<lambda>(w, m). case group m 1 of None \<Rightarrow> [] | Some g \<Rightarrow> g) (re_finditer ic r s)"

fun split_tokens :: "token list \<Rightarrow> string \<Rightarrow> string list" where
  "split_tokens [] cur = [cur]"
| "split_tokens (Copy c # ts) cur = split_tokens ts (cur @ [c])"
| "split_tokens (Match w m # ts) cur = cur # split_tokens ts []"

text \<open>\<open>re.split\<close> for a pattern without a group.\<close>

definition re_split :: "bool \<Rightarrow> regex \<Rightarrow> string \<Rightarrow> string list" where
  "re_split ic r s = split_tokens (scan ic r None s False) []"

fun search_from :: "bool \<Rightarrow> regex \<Rightarrow> char option \<Rightarrow> string \<Rightarrow> mstate option" where
  "search_from ic r p [] = re_match_at ic r p [] False"
| "search_from ic r p (c # cs) =
     (case re_match_at ic r p (c # cs) False of
        Some m \<Rightarrow> Some m
      | None \<Rightarrow> search_from ic r (Some c) cs)"

text \<open>\<open>re.search(r, s)\<close> read as a truth value.\<close>

definition re_search :: "bool \<Rightarrow> regex \<Rightarrow> string \<Rightarrow> bool" where
  "re_search ic r s = (search_from ic r None s \<noteq> None)"

text \<open>Pattern notation: \<open>r1 r2 ...\<close>, \<open>r1|r2|...\<close>, a literal text, \<open>r+\<close>, \<open>r?\<close>, \<open>r{n,}\<close>.\<close>

fun seqs :: "regex list \<Rightarrow> regex" where
  "seqs [] = Eps"
| "seqs (r # rs) = Seq r (seqs rs)"

fun alts :: "regex list \<Rightarrow> regex" where
  "alts [] = Eps"
| "alts [r] = r"
| "alts (r # r' # rs) = Alt r (alts (r' # rs))"

fun lit :: "string \<Rightarrow> regex" where
  "lit [] = Eps"
| "lit (c # cs) = Seq (Chr c) (lit cs)"

definition Plus :: "regex \<Rightarrow> regex" where
  "Plus r = Seq r (Star r)"

definition Opt :: "regex \<Rightarrow> regex" where
  "Opt r = Alt r Eps"

primrec at_least :: "nat \<Rightarrow> regex \<Rightarrow> regex" where
  "at_least 0 r = Star r"
| "at_least (Suc n) r = Seq r (at_least n r)"

definition ws :: regex where "ws = Cls is_space"
definition wd :: regex where "wd = Cls is_word"
definition not_chr :: "char \<Rightarrow> regex" where "not_chr c = Cls (\<lambda>x. x \<noteq> c)"

subsection \<open>The pattern tables of \<open>__init__\<close>\<close>

text \<open>\<open>\n\s*\n\s*\n+\<close>: a blank-line run, the first entry of \<open>redundant_patterns\<close>.\<close>

definition blank_run :: regex where
  "blank_run = seqs [Chr NL, Star ws, Chr NL, Star ws, Plus (Chr NL)]"

text \<open>A fenced code block: three backticks, \<open>[^`]*\<close>, three backticks.\<close>

definition code_pattern :: regex where
  "code_pattern = seqs [lit [BT, BT, BT], Star (not_chr BT), lit [BT, BT, BT]]"

text \<open>
  \<open>redundant_patterns\<close>, in the order of the source: \<open>\n\s*\n\s*\n+\<close>,
  \<open>(\s+)(\s+)+\<close>, \<open>(The\s+same\s+\w+\s+){2,}\<close>, \<open>(\w+\s+){3,}\1\<close> and a code block in
  group 1 followed by \<open>\s*\1\<close>.
\<close>

definition redundant_patterns :: "regex list" where
  "redundant_patterns =
     [blank_run,
      Seq (Group 1 (Plus ws)) (Plus (Group 2 (Plus ws))),
      at_least 2 (Group 1 (seqs [lit ''The'', Plus ws, lit ''same'', Plus ws, Plus wd, Plus ws])),
      Seq (at_least 3 (Group 1 (Seq (Plus wd) (Plus ws)))) (Backref 1),
      seqs [Group 1 code_pattern, Star ws, Backref 1]]"

definition upper_AZ :: "char \<Rightarrow> bool" where
  "upper_AZ c = (65 \<le> char_code c \<and> char_code c \<le> 90)"

definition lower_az :: "char \<Rightarrow> bool" where
  "lower_az c = (97 \<le> char_code c \<and> char_code c \<le> 122)"

text \<open>
  \<open>preserve_patterns\<close>: a code block, inline code, a URL (\<open>https?://[^\s]+\<close>), a
  constant (\<open>[A-Z][A-Z_]+[A-Z]\<close>), CamelCase (\<open>\b[A-Z][a-z]+[A-Z][A-Za-z]*\b\<close>) and a
  variable substitution (\<open>\$\{[^}]+\}\<close>).
\<close>

definition preserve_patterns :: "regex list" where
  "preserve_patterns =
     [code_pattern,
      seqs [Chr BT, Plus (not_chr BT), Chr BT],
      seqs [lit ''http'', Opt (Chr CHR ''s''), lit ''://'', Plus (Cls (\<lambda>c. \<not> is_space c))],
      seqs [Cls upper_AZ, Plus (Cls (\<lambda>c. upper_AZ c \<or> c = CHR ''_'')), Cls upper_AZ],
      seqs [WordB, Cls upper_AZ, Plus (Cls lower_az), Cls upper_AZ,
            Star (Cls (\<lambda>c. upper_AZ c \<or> lower_az c)), WordB],
      seqs [Chr CHR ''$'', Chr CHR ''{'', Plus (not_chr CHR ''}''), Chr CHR ''}'']]"

datatype error = ZeroDivisionError | KeyError

subsection \<open>\<open>compress_whitespace\<close>\<close>

definition compress_whitespace :: "string \<Rightarrow> string \<times> real" where
  "compress_whitespace content =
     (let content1 = re_sub_const False (Alt (lit [CR, NL]) (Chr CR)) [NL] content;
          content2 = re_sub_const False blank_run [NL, NL] content1;
          content3 = join [NL] (map rstrip (split_on NL content2));
          preserved_blocks = map fst (re_finditer False code_pattern content3);
          content_no_code = re_sub_const False code_pattern ''<<<CODE_BLOCK>>>'' content3;
          content_no_code1 =
            re_sub_const False (Plus (Cls (\<lambda>c. c = CHR '' '' \<or> c = TAB))) '' '' content_no_code;
          content_no_code2 =
            foldl (\<lambda>acc block. replace_first ''<<<CODE_BLOCK>>>'' block acc)
              content_no_code1 preserved_blocks
      in (content_no_code2, 1.0))"

subsection \<open>\<open>eliminate_redundancy\<close>\<close>

text \<open>The first loop: \<open>line_frequency\<close>, a count for each stripped non-empty line.\<close>

fun count_lines :: "(string \<rightharpoonup> nat) \<Rightarrow> string list \<Rightarrow> (string \<rightharpoonup> nat)" where
  "count_lines line_frequency [] = line_frequency"
| "count_lines line_frequency (line # lines) =
     (let clean_line = strip line in
      if clean_line \<noteq> [] then
        count_lines
          (line_frequency(clean_line \<mapsto>
             (case line_frequency clean_line of None \<Rightarrow> 0 | Some n \<Rightarrow> n) + 1))
          lines
      else count_lines line_frequency lines)"

definition append_line :: "string \<Rightarrow> error + string list \<Rightarrow> error + string list" where
  "append_line l r = (case r of Inl e \<Rightarrow> Inl e | Inr ls \<Rightarrow> Inr (l # ls))"

text \<open>
  The second loop: \<open>processed_lines\<close>, with \<open>line_refs\<close> and \<open>ref_counter\<close> as its
  state. A subscript of \<open>line_frequency\<close> with a missing key raises \<open>KeyError\<close>.
\<close>

fun replace_repeated ::
  "(string \<rightharpoonup> nat) \<Rightarrow> (string \<rightharpoonup> string) \<Rightarrow> nat \<Rightarrow> string list \<Rightarrow> error + string list" where
  "replace_repeated line_frequency line_refs ref_counter [] = Inr []"
| "replace_repeated line_frequency line_refs ref_counter (line # lines) =
     (let clean_line = strip line in
      if clean_line = [] then
        append_line line (replace_repeated line_frequency line_refs ref_counter lines)
      else
        case line_frequency clean_line of
          None \<Rightarrow> Inl KeyError
        | Some n \<Rightarrow>
            if 2 < n then
              (case line_refs clean_line of
                 None \<Rightarrow>
                   append_line (''[REF_'' @ str_nat ref_counter @ '']: '' @ line)
                     (replace_repeated line_frequency
                        (line_refs(clean_line \<mapsto> ''[REF_'' @ str_nat ref_counter @ '']''))
                        (ref_counter + 1) lines)
               | Some ref \<Rightarrow>
                   append_line
                     (replicate (length line - length (lstrip line)) CHR '' '' @ ref)
                     (replace_repeated line_frequency line_refs ref_counter lines))
            else
              append_line line (replace_repeated line_frequency line_refs ref_counter lines))"

text \<open>
  The replacement \<open>lambda m: m.group(1) if m.lastindex and m.lastindex >= 1 else ''\<close>;
  \<open>re.sub\<close> reads a replacement of \<open>None\<close> as the empty text.
\<close>

definition redundancy_repl :: "string \<Rightarrow> mstate \<Rightarrow> string" where
  "redundancy_repl w m =
     (case lastindex m of
        None \<Rightarrow> []
      | Some i \<Rightarrow>
          if 1 \<le> i then (case group m 1 of None \<Rightarrow> [] | Some g \<Rightarrow> g) else [])"

definition eliminate_redundancy :: "string \<Rightarrow> error + string \<times> real" where
  "eliminate_redundancy content =
     (let lines = split_on NL content;
          line_frequency = count_lines Map.empty lines
      in case replace_repeated line_frequency Map.empty 1 lines of
           Inl e \<Rightarrow> Inl e
         | Inr processed_lines \<Rightarrow>
             Inr (foldl (\<lambda>c pattern. re_sub False pattern redundancy_repl c)
                    (join [NL] processed_lines) redundant_patterns,
                  0.99))"

subsection \<open>\<open>semantic_condensation\<close>\<close>

text \<open>\<open>\b(?:p1|p2|...)\b\<close>, the shape of every pattern below.\<close>

definition phrase :: "string list \<Rightarrow> regex" where
  "phrase ps = seqs [WordB, alts (map lit ps), WordB]"

definition condensation_patterns :: "(regex \<times> string) list" where
  "condensation_patterns =
     [(phrase [''in order to'', ''so as to''], ''to''),
      (phrase [''due to the fact that'', ''because of the fact that''], ''because''),
      (phrase [''at this point in time'', ''at the present time''], ''now''),
      (phrase [''for the purpose of''], ''for''),
      (phrase [''with regard to'', ''with respect to'', ''in relation to''], ''regarding''),
      (phrase [''it should be noted that'', ''it is important to note that''], ''note:''),
      (phrase [''as a result of''], ''from''),
      (phrase [''in the event that''], ''if''),
      (phrase [''make use of''], ''use''),
      (phrase [''provide assistance to''], ''help'')]"

definition filler_words :: regex where
  "filler_words =
     phrase [''actually'', ''basically'', ''essentially'', ''literally'', ''obviously'',
             ''really'', ''very'', ''quite'', ''rather'', ''pretty'', ''just'', ''simply'',
             ''merely'', ''only'']"

text \<open>The body of the loop over the lines.\<close>

definition condense_line :: "string \<Rightarrow> string" where
  "condense_line line =
     (let is_technical = list_ex (\<lambda>pattern. re_search False pattern line) preserve_patterns
      in if \<not> is_technical
            \<and> \<not> list_ex (\<lambda>p. prefix p (strip line)) [''*'', ''-'', ''1.'', ''2.'', ''3.'']
         then re_sub_const False (Plus ws) '' '' (re_sub_const True filler_words [] line)
         else line)"

definition semantic_condensation :: "string \<Rightarrow> error + string \<times> real" where
  "semantic_condensation content =
     (let original_content = content;
          content1 =
            foldl (\<lambda>c (verbose_pattern, concise_replacement).
                     re_sub_const True verbose_pattern concise_replacement c)
              content condensation_patterns;
          content2 = join [NL] (map condense_line (split_on NL content1));
          changes_made = int (length original_content) - int (length content2)
      in if length original_content = 0 then Inl ZeroDivisionError
         else Inr (content2,
                   max 0.95
                     (1.0 - (real_of_int changes_made / real (length original_content)) * 2)))"

subsection \<open>\<open>pattern_abstraction\<close>\<close>

text \<open>
  \<open>def\s+(\w+)\([^)]*\):[^:]*?(?=\ndef|\nclass|\n\S|\Z)\<close>; \<open>re.findall\<close> returns the
  text of its group.
\<close>

definition func_pattern :: regex where
  "func_pattern =
     seqs [lit ''def'', Plus ws, Group 1 (Plus wd), Chr CHR ''('',
           Star (not_chr CHR '')''), Chr CHR '')'', Chr CHR '':'',
           LazyStar (not_chr CHR '':''),
           Look (alts [lit (NL # ''def''), lit (NL # ''class''),
                       Seq (Chr NL) (Cls (\<lambda>c. \<not> is_space c)), EndZ])]"

text \<open>\<open>\{[^{}]*(?:\{[^{}]*\}[^{}]*)*\}\<close>.\<close>

definition not_brace :: regex where
  "not_brace = Cls (\<lambda>c. c \<noteq> CHR ''{'' \<and> c \<noteq> CHR ''}'')"

definition json_pattern :: regex where
  "json_pattern =
     seqs [Chr CHR ''{'', Star not_brace,
           Star (seqs [Chr CHR ''{'', Star not_brace, Chr CHR ''}'', Star not_brace]),
           Chr CHR ''}'']"

definition enumerate_list :: "'a list \<Rightarrow> (nat \<times> 'a) list" where
  "enumerate_list xs = zip [0 ..< length xs] xs"

definition pattern_abstraction :: "string \<Rightarrow> string \<times> real" where
  "pattern_abstraction content =
     (let func_patterns = re_findall1 False func_pattern content;
          funcs = map (\<lambda>(i, func_content). (func_content, ''[FUNC_'' @ str_nat i @ '']''))
                    (filter (\<lambda>(i, func_content). 200 < length func_content)
                       (enumerate_list func_patterns));
          json_patterns = re_findall0 False json_pattern content;
          jsons = map (\<lambda>(i, json_content). (json_content, ''[JSON_'' @ str_nat i @ '']''))
                    (filter (\<lambda>(i, json_content). 300 < length json_content)
                       (enumerate_list json_patterns));
          pattern_abstractions = funcs @ jsons;
          abstracted_content =
            foldl (\<lambda>c (pattern, abstraction). replace_all pattern abstraction c)
              content pattern_abstractions;
          abstraction_dict =
            [NL, NL] @ ''--- Pattern Abstractions ---'' @ [NL]
            @ concat (map (\<lambda>(pattern, abstraction).
                  abstraction @ '': '' @ take 100 pattern
                  @ (if 100 < length pattern then ''...'' else []) @ [NL])
                pattern_abstractions)
      in (if pattern_abstractions \<noteq> [] then abstracted_content @ abstraction_dict
          else abstracted_content,
          0.98))"

subsection \<open>\<open>context_deduplication\<close> and \<open>calculate_similarity\<close>\<close>

definition calculate_similarity :: "string \<Rightarrow> string \<Rightarrow> real" where
  "calculate_similarity text1 text2 =
     (let words1 = set (re_findall0 False (seqs [WordB, Plus wd, WordB]) (lower text1));
          words2 = set (re_findall0 False (seqs [WordB, Plus wd, WordB]) (lower text2))
      in if words1 = {} \<or> words2 = {} then 0.0
         else
           let intersection = words1 \<inter> words2;
               union = words1 \<union> words2
           in if union \<noteq> {} then real (card intersection) / real (card union) else 0.0)"

text \<open>The loop over the blocks, with \<open>unique_blocks\<close> as its state.\<close>

fun dedup_blocks :: "string list \<Rightarrow> string list \<Rightarrow> string list" where
  "dedup_blocks unique_blocks [] = unique_blocks"
| "dedup_blocks unique_blocks (block # blocks) =
     (let block1 = strip block in
      if block1 = [] then dedup_blocks unique_blocks blocks
      else if list_ex (\<lambda>unique_block. 0.8 < calculate_similarity block1 unique_block)
                unique_blocks
      then dedup_blocks unique_blocks blocks
      else dedup_blocks (unique_blocks @ [block1]) blocks)"

definition context_deduplication :: "string \<Rightarrow> string \<times> real" where
  "context_deduplication content =
     (let blocks = re_split False (seqs [Chr NL, Star ws, Chr NL]) content;
          unique_blocks = dedup_blocks [] blocks;
          deduplicated_content = join [NL, NL] unique_blocks;
          original_blocks = length blocks;
          unique_blocks_count = length unique_blocks
      in (deduplicated_content,
          min 0.99 (if 0 < original_blocks
                    then real unique_blocks_count / real original_blocks else 1.0)))"

subsection \<open>\<open>aggressive_compression\<close>\<close>

text \<open>The loop over the lines, with \<open>example_count\<close> as its state.\<close>

fun filter_examples :: "nat \<Rightarrow> string list \<Rightarrow> string list" where
  "filter_examples example_count [] = []"
| "filter_examples example_count (line # lines) =
     (if re_search True (phrase [''example'', ''e.g.'', ''for instance'', ''such as'']) line
      then (if example_count + 1 \<le> 2
            then line # filter_examples (example_count + 1) lines
            else filter_examples (example_count + 1) lines)
      else line # filter_examples example_count lines)"

definition abbreviations :: "(regex \<times> string) list" where
  "abbreviations =
     [(phrase [''function''], ''fn''),
      (phrase [''parameter''], ''param''),
      (phrase [''argument''], ''arg''),
      (phrase [''variable''], ''var''),
      (phrase [''configuration''], ''config''),
      (phrase [''environment''], ''env''),
      (phrase [''directory''], ''dir''),
      (phrase [''execute''], ''exec''),
      (phrase [''initialization''], ''init''),
      (phrase [''optimization''], ''opt'')]"

definition aggressive_compression :: "string \<Rightarrow> string \<times> real" where
  "aggressive_compression content =
     (let content1 =
            re_sub_const False (seqs [Chr CHR ''#'', Star (not_chr NL), Chr NL]) [NL] content;
          content2 =
            re_sub_const False (seqs [lit ''//'', Star (not_chr NL), Chr NL]) [NL] content1;
          content3 =
            re_sub_const False (seqs [lit ''/*'', LazyStar (Cls (\<lambda>c. True)), lit ''*/''])
              [] content2;
          content4 = join [NL] (filter_examples 0 (split_on NL content3));
          content5 =
            foldl (\<lambda>c (full_word, abbrev). re_sub_const True full_word abbrev c)
              content4 abbreviations
      in (content5, 0.90))"

subsection \<open>Strategy names and their selection\<close>

datatype strategy =
    whitespace_optimization
  | redundancy_elimination
  | semantic_condensation_s
  | pattern_abstraction_s
  | context_deduplication_s
  | aggressive_compression_s

fun strategy_name :: "strategy \<Rightarrow> string" where
  "strategy_name whitespace_optimization = ''whitespace_optimization''"
| "strategy_name redundancy_elimination = ''redundancy_elimination''"
| "strategy_name semantic_condensation_s = ''semantic_condensation''"
| "strategy_name pattern_abstraction_s = ''pattern_abstraction''"
| "strategy_name context_deduplication_s = ''context_deduplication''"
| "strategy_name aggressive_compression_s = ''aggressive_compression''"

text \<open>Lines 426-443 of \<open>compress_content\<close>: the list \<open>selected_strategies\<close>.\<close>

definition select_strategies :: "real \<Rightarrow> bool \<Rightarrow> strategy list" where
  "select_strategies target_reduction aggressive_mode =
     (if \<not> aggressive_mode then
        (if target_reduction \<le> 0.10 then [whitespace_optimization]
         else if target_reduction \<le> 0.20 then
           [whitespace_optimization, redundancy_elimination]
         else if target_reduction \<le> 0.30 then
           [whitespace_optimization, redundancy_elimination, semantic_condensation_s]
         else
           [whitespace_optimization, redundancy_elimination,
            semantic_condensation_s, pattern_abstraction_s])
      else
        [aggressive_compression_s, context_deduplication_s,
         semantic_condensation_s, whitespace_optimization])"

subsection \<open>The pipeline of \<open>compress_content\<close>\<close>

text \<open>The \<open>if\<close>/\<open>elif\<close> chain inside the \<open>try\<close> block: the call of one strategy.\<close>

fun apply_strategy :: "strategy \<Rightarrow> string \<Rightarrow> error + string \<times> real" where
  "apply_strategy whitespace_optimization c = Inr (compress_whitespace c)"
| "apply_strategy redundancy_elimination c = eliminate_redundancy c"
| "apply_strategy semantic_condensation_s c = semantic_condensation c"
| "apply_strategy pattern_abstraction_s c = Inr (pattern_abstraction c)"
| "apply_strategy context_deduplication_s c = Inr (context_deduplication c)"
| "apply_strategy aggressive_compression_s c = Inr (aggressive_compression c)"

text \<open>
  The variables the loop updates: \<open>compressed_content\<close>, \<open>overall_preservation\<close> and
  the list \<open>method_used\<close>.
\<close>

datatype pstate = PState (compressed_content: string) (overall_preservation: real)
  (methods: "strategy list")

text \<open>
  The wall clock: \<open>elapsed_seconds i\<close> is \<open>(datetime.now() - start_time).seconds\<close> as the
  check before the strategy at index \<open>i\<close> of the selected list reads it, and
  \<open>total_seconds\<close> is the reading for \<open>processing_time\<close>.
\<close>

record clock =
  elapsed_seconds :: "nat \<Rightarrow> nat"
  total_seconds :: real

text \<open>
  The loop over \<open>selected_strategies\<close> (lines 450-479). An exception of the strategy
  leaves the three variables as they were and the loop goes on. With an empty input the
  division of line 473 raises \<open>ZeroDivisionError\<close> after the variables were updated,
  and the handler goes on as well.
\<close>

fun run_strategies ::
  "nat \<Rightarrow> real \<Rightarrow> int \<Rightarrow> (nat \<Rightarrow> nat) \<Rightarrow> nat \<Rightarrow> strategy list \<Rightarrow> pstate \<Rightarrow> pstate" where
  "run_strategies original_size target_reduction max_time elapsed i [] st = st"
| "run_strategies original_size target_reduction max_time elapsed i (strategy # strategies) st =
     (if max_time \<le> int (elapsed i) then st
      else
        case apply_strategy strategy (compressed_content st) of
          Inl e \<Rightarrow> run_strategies original_size target_reduction max_time elapsed (Suc i) strategies st
        | Inr (content1, preservation) \<Rightarrow>
            let st1 = PState content1 (overall_preservation st * preservation)
                        (methods st @ [strategy])
            in if original_size = 0 then
                 run_strategies original_size target_reduction max_time elapsed (Suc i) strategies st1
               else if target_reduction \<le> 1 - real (length content1) / real original_size
               then st1
               else
                 run_strategies original_size target_reduction max_time elapsed (Suc i) strategies st1)"

text \<open>
  The same loop, recording the variables after each strategy that is appended to
  \<open>method_used\<close>.
\<close>

fun run_trace ::
  "nat \<Rightarrow> real \<Rightarrow> int \<Rightarrow> (nat \<Rightarrow> nat) \<Rightarrow> nat \<Rightarrow> strategy list \<Rightarrow> pstate \<Rightarrow> pstate list" where
  "run_trace original_size target_reduction max_time elapsed i [] st = []"
| "run_trace original_size target_reduction max_time elapsed i (strategy # strategies) st =
     (if max_time \<le> int (elapsed i) then []
      else
        case apply_strategy strategy (compressed_content st) of
          Inl e \<Rightarrow> run_trace original_size target_reduction max_time elapsed (Suc i) strategies st
        | Inr (content1, preservation) \<Rightarrow>
            let st1 = PState content1 (overall_preservation st * preservation)
                        (methods st @ [strategy])
            in st1 #
               (if original_size = 0 then
                  run_trace original_size target_reduction max_time elapsed (Suc i) strategies st1
                else if target_reduction \<le> 1 - real (length content1) / real original_size
                then []
                else
                  run_trace original_size target_reduction max_time elapsed (Suc i) strategies st1))"

record CompressionResult =
  original_size :: nat
  compressed_size :: nat
  tokens_saved :: int
  compression_ratio :: real
  preservation_score :: real
  processing_time :: real
  method_used :: string
  content_hash :: string

text \<open>
  What \<open>compress_content\<close> takes from outside the class: \<open>hashlib.md5(...).hexdigest()\<close>
  and the text an f-string gives a float.
\<close>

record env =
  md5_hexdigest :: "string \<Rightarrow> string"
  float_str :: "real \<Rightarrow> string"

definition cache_key :: "env \<Rightarrow> string \<Rightarrow> real \<Rightarrow> bool \<Rightarrow> string" where
  "cache_key E content target_reduction aggressive_mode =
     md5_hexdigest E content @ ''_'' @ float_str E target_reduction @ ''_''
     @ (if aggressive_mode then ''True'' else ''False'')"

text \<open>
  \<open>compress_content\<close>, from the cache \<open>self.compression_cache\<close> before the call to the
  result and the cache after it.
\<close>

definition compress_content ::
  "env \<Rightarrow> clock \<Rightarrow> (string \<rightharpoonup> CompressionResult) \<Rightarrow> string \<Rightarrow> real \<Rightarrow> int \<Rightarrow> bool
     \<Rightarrow> CompressionResult \<times> (string \<rightharpoonup> CompressionResult)" where
  "compress_content E T compression_cache content target_reduction max_time aggressive_mode =
     (let original_size = length content;
          original_tokens = original_size div 4;
          content_hash = md5_hexdigest E content;
          key = cache_key E content target_reduction aggressive_mode
      in case compression_cache key of
           Some cached \<Rightarrow> (cached, compression_cache)
         | None \<Rightarrow>
             let selected_strategies = select_strategies target_reduction aggressive_mode;
                 st = run_strategies original_size target_reduction max_time
                        (elapsed_seconds T) 0 selected_strategies (PState content 1.0 []);
                 compressed_size = length (compressed_content st);
                 tokens_saved = int original_tokens - int (compressed_size div 4);
                 compression_ratio =
                   (if 0 < original_size then real compressed_size / real original_size
                    else 1.0);
                 result = \<lparr> original_size = original_size,
                            compressed_size = compressed_size,
                            tokens_saved = tokens_saved,
                            compression_ratio = compression_ratio,
                            preservation_score = overall_preservation st,
                            processing_time = total_seconds T,
                            method_used = join '', '' (map strategy_name (methods st)),
                            content_hash = content_hash \<rparr>
             in (result, compression_cache(key \<mapsto> result)))"

subsection \<open>What a pattern can match\<close>

text \<open>
  \<open>shape ic r w\<close> bounds from above the texts \<open>w\<close> that a match of \<open>r\<close> can cover;
  \<open>minlen\<close> is the least length of such a text, \<open>needs ic P r\<close> says that every such text
  has a character in \<open>P\<close>, and \<open>starts ic P r\<close> that it begins with one. They are used in
  the proofs only.
\<close>

primrec shape :: "bool \<Rightarrow> regex \<Rightarrow> string \<Rightarrow> bool" where
  "shape ic Eps w = (w = [])"
| "shape ic (Chr c) w = (\<exists>x. w = [x] \<and> chr_eq ic c x)"
| "shape ic (Cls P) w = (\<exists>x. w = [x] \<and> P x)"
| "shape ic (Seq r1 r2) w = (\<exists>u v. w = u @ v \<and> shape ic r1 u \<and> shape ic r2 v)"
| "shape ic (Alt r1 r2) w = (shape ic r1 w \<or> shape ic r2 w)"
| "shape ic (Star r) w = True"
| "shape ic (LazyStar r) w = True"
| "shape ic (Group n r) w = shape ic r w"
| "shape ic (Backref n) w = True"
| "shape ic WordB w = (w = [])"
| "shape ic (Look r) w = (w = [])"
| "shape ic EndZ w = (w = [])"

primrec minlen :: "regex \<Rightarrow> nat" where
  "minlen Eps = 0"
| "minlen (Chr c) = 1"
| "minlen (Cls P) = 1"
| "minlen (Seq r1 r2) = minlen r1 + minlen r2"
| "minlen (Alt r1 r2) = min (minlen r1) (minlen r2)"
| "minlen (Star r) = 0"
| "minlen (LazyStar r) = 0"
| "minlen (Group n r) = minlen r"
| "minlen (Backref n) = 0"
| "minlen WordB = 0"
| "minlen (Look r) = 0"
| "minlen EndZ = 0"

primrec needs :: "bool \<Rightarrow> (char \<Rightarrow> bool) \<Rightarrow> regex \<Rightarrow> bool" where
  "needs ic P Eps = False"
| "needs ic P (Chr c) = (\<forall>x. chr_eq ic c x \<longrightarrow> P x)"
| "needs ic P (Cls Q) = (\<forall>x. Q x \<longrightarrow> P x)"
| "needs ic P (Seq r1 r2) = (needs ic P r1 \<or> needs ic P r2)"
| "needs ic P (Alt r1 r2) = (needs ic P r1 \<and> needs ic P r2)"
| "needs ic P (Star r) = False"
| "needs ic P (LazyStar r) = False"
| "needs ic P (Group n r) = needs ic P r"
| "needs ic P (Backref n) = False"
| "needs ic P WordB = False"
| "needs ic P (Look r) = False"
| "needs ic P EndZ = False"

primrec starts :: "bool \<Rightarrow> (char \<Rightarrow> bool) \<Rightarrow> regex \<Rightarrow> bool" where
  "starts ic P Eps = False"
| "starts ic P (Chr c) = (\<forall>x. chr_eq ic c x \<longrightarrow> P x)"
| "starts ic P (Cls Q) = (\<forall>x. Q x \<longrightarrow> P x)"
| "starts ic P (Seq r1 r2) = starts ic P r1"
| "starts ic P (Alt r1 r2) = (starts ic P r1 \<and> starts ic P r2)"
| "starts ic P (Star r) = False"
| "starts ic P (LazyStar r) = False"
| "starts ic P (Group n r) = starts ic P r"
| "starts ic P (Backref n) = False"
| "starts ic P WordB = False"
| "starts ic P (Look r) = False"
| "starts ic P EndZ = False"

text \<open>\<open>st'\<close> is reached from \<open>st\<close> by matching the text \<open>w\<close>.\<close>

definition reaches :: "mstate \<Rightarrow> string \<Rightarrow> mstate \<Rightarrow> bool" where
  "reaches st w st' = (rest st = w @ rest st' \<and> pos st' = pos st + length w)"

text \<open>The text that a list of tokens covers.\<close>

fun covered :: "token list \<Rightarrow> string" where
  "covered [] = []"
| "covered (Copy c # ts) = c # covered ts"
| "covered (Match w m # ts) = w @ covered ts"

subsection \<open>An environment for the closed examples\<close>

text \<open>
  The examples below run \<open>compress_content\<close> on a fresh cache with a clock that stands
  still; the digest and the text of the float do not enter what they state.
\<close>

definition example_env :: env where
  "example_env = \<lparr> md5_hexdigest = (\<lambda>content. ''0''), float_str = (\<lambda>x. ''0'') \<rparr>"

definition example_clock :: clock where
  "example_clock = \<lparr> elapsed_seconds = (\<lambda>i. 0), total_seconds = 0 \<rparr>"

text \<open>Three equal lines \<open>a\<close>, and what \<open>eliminate_redundancy\<close> makes of them.\<close>

definition three_lines :: string where
  "three_lines = ''a'' @ [NL] @ ''a'' @ [NL] @ ''a''"

definition three_refs :: string where
  "three_refs = ''[REF_1]: a'' @ [NL] @ ''[REF_1]'' @ [NL] @ ''[REF_1]''"

text \<open>
  A code block that holds the placeholder text of \<open>compress_whitespace\<close>, followed by a
  code block with two spaces inside; and the outputs of the first and of the second
  pass of \<open>compress_whitespace\<close> on it.
\<close>

definition placeholder_in_block :: string where
  "placeholder_in_block =
     [BT, BT, BT] @ ''<<<CODE_BLOCK>>>'' @ [BT, BT, BT] @ '' ''
     @ [BT, BT, BT] @ ''c  d'' @ [BT, BT, BT]"

definition first_pass :: string where
  "first_pass =
     [BT, BT, BT, BT, BT, BT] @ ''c  d'' @ [BT, BT, BT, BT, BT, BT] @ '' <<<CODE_BLOCK>>>''"

definition second_pass :: string where
  "second_pass =
     [BT, BT, BT, BT, BT, BT] @ ''c d'' @ [BT, BT, BT, BT, BT, BT] @ '' <<<CODE_BLOCK>>>''"

section \<open>Properties\<close>

subsection \<open>The matcher\<close>

lemma reaches_refl: "reaches st [] st"
  by (simp add: reaches_def)

lemma reaches_trans: "reaches st u st1 \<Longrightarrow> reaches st1 v st2 \<Longrightarrow> reaches st (u @ v) st2"
  by (simp add: reaches_def)

lemma step_if_sound:
  assumes "step_if P st k = Some x"
  shows "\<exists>st' c. k st' = Some x \<and> reaches st [c] st' \<and> P c"
proof (cases "rest st")
  case Nil
  with assms show ?thesis by (simp add: step_if_def)
next
  case (Cons c cs)
  with assms have "P c" and "k (MState (Some c) cs (Suc (pos st)) (caps st) (lastindex st)) = Some x"
    by (auto simp: step_if_def split: if_splits)
  moreover have "reaches st [c] (MState (Some c) cs (Suc (pos st)) (caps st) (lastindex st))"
    using Cons by (simp add: reaches_def)
  ultimately show ?thesis by blast
qed

text \<open>A result of a star comes from its continuation, at a state further on.\<close>

lemma star_g_sound:
  assumes body: "\<And>st k x. m st k = Some x \<Longrightarrow> \<exists>st' w. k st' = Some x \<and> reaches st w st'"
  shows "star_g n m st k = Some x \<Longrightarrow> \<exists>st' w. k st' = Some x \<and> reaches st w st'"
proof (induction n arbitrary: st x)
  case 0
  then show ?case using reaches_refl by auto
next
  case (Suc n)
  show ?case
  proof (cases "m st (\<lambda>st'. if pos st < pos st' then star_g n m st' k else None)")
    case None
    with Suc.prems have "k st = Some x" by simp
    then show ?thesis using reaches_refl by blast
  next
    case (Some y)
    with Suc.prems have "y = x" by simp
    with Some body obtain st1 u
      where k1: "(if pos st < pos st1 then star_g n m st1 k else None) = Some x"
        and r1: "reaches st u st1"
      by blast
    from k1 have "star_g n m st1 k = Some x" by (simp split: if_splits)
    from Suc.IH [OF this] obtain st' v where "k st' = Some x" "reaches st1 v st'" by blast
    with r1 show ?thesis using reaches_trans by blast
  qed
qed

lemma star_l_sound:
  assumes body: "\<And>st k x. m st k = Some x \<Longrightarrow> \<exists>st' w. k st' = Some x \<and> reaches st w st'"
  shows "star_l n m st k = Some x \<Longrightarrow> \<exists>st' w. k st' = Some x \<and> reaches st w st'"
proof (induction n arbitrary: st x)
  case 0
  then show ?case using reaches_refl by auto
next
  case (Suc n)
  show ?case
  proof (cases "k st")
    case (Some y)
    with Suc.prems have "k st = Some x" by simp
    then show ?thesis using reaches_refl by blast
  next
    case None
    with Suc.prems
    have "m st (\<lambda>st'. if pos st < pos st' then star_l n m st' k else None) = Some x"
      by simp
    with body obtain st1 u
      where k1: "(if pos st < pos st1 then star_l n m st1 k else None) = Some x"
        and r1: "reaches st u st1"
      by blast
    from k1 have "star_l n m st1 k = Some x" by (simp split: if_splits)
    from Suc.IH [OF this] obtain st' v where "k st' = Some x" "reaches st1 v st'" by blast
    with r1 show ?thesis using reaches_trans by blast
  qed
qed

lemma backref_step_sound:
  assumes "backref_step ic g st k = Some x"
  shows "\<exists>st' w. k st' = Some x \<and> reaches st w st'"
proof -
  let ?st' = "MState (if g = [] then prev st else Some (last (take (length g) (rest st))))
                (drop (length g) (rest st)) (pos st + length g) (caps st) (lastindex st)"
  from assms have len: "length g \<le> length (rest st)" and k: "k ?st' = Some x"
    by (auto simp: backref_step_def split: if_splits)
  from len have "reaches st (take (length g) (rest st)) ?st'"
    by (simp add: reaches_def)
  with k show ?thesis by blast
qed

text \<open>
  Soundness of the matcher: a result is a result of the continuation, at a state
  reached by matching a text of the pattern's shape.
\<close>

lemma mt_sound:
  "mt ic r st k = Some x \<Longrightarrow> \<exists>st' w. k st' = Some x \<and> reaches st w st' \<and> shape ic r w"
proof (induction r arbitrary: st k x)
  case Eps
  then show ?case using reaches_refl by auto
next
  case (Chr c)
  then show ?case using step_if_sound [of "chr_eq ic c" st k x] by auto
next
  case (Cls P)
  then show ?case using step_if_sound [of P st k x] by auto
next
  case (Seq r1 r2)
  from Seq.prems have "mt ic r1 st (\<lambda>st'. mt ic r2 st' k) = Some x" by simp
  from Seq.IH(1) [OF this] obtain st1 u
    where m2: "mt ic r2 st1 k = Some x" and r1: "reaches st u st1" and s1: "shape ic r1 u"
    by blast
  from Seq.IH(2) [OF m2] obtain st' v
    where "k st' = Some x" "reaches st1 v st'" "shape ic r2 v"
    by blast
  with r1 s1 show ?case using reaches_trans by fastforce
next
  case (Alt r1 r2)
  show ?case
  proof (cases "mt ic r1 st k")
    case None
    with Alt.prems have "mt ic r2 st k = Some x" by simp
    from Alt.IH(2) [OF this] show ?thesis by auto
  next
    case (Some y)
    with Alt.prems have "mt ic r1 st k = Some x" by simp
    from Alt.IH(1) [OF this] show ?thesis by auto
  qed
next
  case (Star r)
  have body: "\<And>st k x. mt ic r st k = Some x \<Longrightarrow> \<exists>st' w. k st' = Some x \<and> reaches st w st'"
    using Star.IH by blast
  from Star.prems have "star_g (length (rest st)) (mt ic r) st k = Some x" by simp
  from star_g_sound [of "mt ic r", OF body this] show ?case by simp
next
  case (LazyStar r)
  have body: "\<And>st k x. mt ic r st k = Some x \<Longrightarrow> \<exists>st' w. k st' = Some x \<and> reaches st w st'"
    using LazyStar.IH by blast
  from LazyStar.prems have "star_l (length (rest st)) (mt ic r) st k = Some x" by simp
  from star_l_sound [of "mt ic r", OF body this] show ?case by simp
next
  case (Group n r)
  let ?k = "\<lambda>st'. k (MState (prev st') (rest st') (pos st')
      ((n, take (pos st' - pos st) (rest st)) # caps st') (Some n))"
  from Group.prems have "mt ic r st ?k = Some x" by simp
  from Group.IH [OF this] obtain st1 w
    where k1: "?k st1 = Some x" and r1: "reaches st w st1" and s1: "shape ic r w"
    by blast
  let ?st' = "MState (prev st1) (rest st1) (pos st1)
      ((n, take (pos st1 - pos st) (rest st)) # caps st1) (Some n)"
  from r1 have "reaches st w ?st'" by (simp add: reaches_def)
  with k1 s1 show ?case by auto
next
  case (Backref n)
  then show ?case using backref_step_sound by (auto split: option.splits)
next
  case WordB
  then show ?case using reaches_refl by (auto split: if_splits)
next
  case (Look r)
  then show ?case using reaches_refl by (auto split: option.splits)
next
  case EndZ
  then show ?case using reaches_refl by (auto split: if_splits)
qed

lemma shape_minlen: "shape ic r w \<Longrightarrow> minlen r \<le> length w"
proof (induction r arbitrary: w)
  case (Seq r1 r2)
  then show ?case by (auto simp: add_mono)
next
  case (Alt r1 r2)
  then show ?case by (auto intro: min.coboundedI1 min.coboundedI2)
qed auto

lemma shape_needs: "shape ic r w \<Longrightarrow> needs ic P r \<Longrightarrow> \<exists>c\<in>set w. P c"
  by (induction r arbitrary: w) (auto; blast)+

lemma shape_starts: "shape ic r w \<Longrightarrow> starts ic P r \<Longrightarrow> w \<noteq> [] \<and> P (hd w)"
  by (induction r arbitrary: w) (auto simp: hd_append)

text \<open>A match at a position covers a prefix of the text there.\<close>

lemma re_match_at_sound:
  assumes "re_match_at ic r p s ma = Some m"
  shows "\<exists>w. s = w @ rest m \<and> pos m = length w \<and> shape ic r w \<and> (ma \<longrightarrow> w \<noteq> [])"
proof -
  let ?k = "\<lambda>st. if ma \<and> pos st = 0 then None else Some st"
  from assms have "mt ic r (MState p s 0 [] None) ?k = Some m"
    by (simp add: re_match_at_def)
  from mt_sound [OF this] obtain st' w
    where k: "?k st' = Some m" and r: "reaches (MState p s 0 [] None) w st'"
      and s: "shape ic r w"
    by blast
  from k have "st' = m" and "\<not> (ma \<and> pos m = 0)" by (auto split: if_splits)
  with r s show ?thesis by (auto simp: reaches_def)
qed

subsection \<open>The scan and \<open>re.sub\<close>\<close>

lemma scan_covered: "covered (scan ic r p s ma) = s"
  by (induction ic r p s ma rule: scan.induct) (auto split: option.splits)

lemma re_match_at_take:
  assumes "re_match_at ic r p s ma = Some m"
  shows "shape ic r (take (pos m) s)"
proof -
  from re_match_at_sound [OF assms] obtain w
    where "s = w @ rest m" "pos m = length w" "shape ic r w"
    by blast
  then show ?thesis by simp
qed

lemma scan_shape: "Match w m \<in> set (scan ic r p s ma) \<Longrightarrow> shape ic r w"
proof (induction ic r p s ma rule: scan.induct)
  case (1 ic r p ma)
  then obtain m' where m': "re_match_at ic r p [] ma = Some m'" and w: "w = []"
    by (cases "re_match_at ic r p [] ma") auto
  from re_match_at_take [OF m'] w show ?case by simp
next
  case (2 ic r p c cs ma)
  show ?case
  proof (cases "re_match_at ic r p (c # cs) ma")
    case None
    with 2 show ?thesis by auto
  next
    case (Some m')
    note sh = re_match_at_take [OF Some]
    show ?thesis
    proof (cases "0 < pos m'")
      case True
      with 2 Some sh show ?thesis by auto
    next
      case False
      with sh have "shape ic r []" by simp
      with 2 Some False show ?thesis by (cases ma) auto
    qed
  qed
qed

lemma sub_tokens_length:
  "(\<And>w m. Match w m \<in> set ts \<Longrightarrow> length (repl w m) \<le> length w)
     \<Longrightarrow> length (sub_tokens repl ts) \<le> length (covered ts)"
proof (induction repl ts rule: sub_tokens.induct)
  case (3 repl w m ts)
  then have "length (repl w m) \<le> length w"
    and "length (sub_tokens repl ts) \<le> length (covered ts)"
    by auto
  then show ?case by simp
qed auto

text \<open>A replacement no longer than the shortest match never lengthens the text.\<close>

lemma re_sub_const_length:
  assumes "length rep \<le> minlen r"
  shows "length (re_sub_const ic r rep s) \<le> length s"
proof -
  have "length (sub_tokens (\<lambda>w m. rep) (scan ic r None s False))
          \<le> length (covered (scan ic r None s False))"
  proof (rule sub_tokens_length)
    fix w m
    assume "Match w m \<in> set (scan ic r None s False)"
    then have "minlen r \<le> length w" using scan_shape shape_minlen by blast
    with assms show "length rep \<le> length w" by simp
  qed
  then show ?thesis by (simp add: re_sub_const_def re_sub_def scan_covered)
qed

text \<open>A pattern that needs a character of a class finds nothing in a text without one.\<close>

lemma re_match_at_needs:
  assumes "needs ic P r" and "\<forall>c\<in>set s. \<not> P c"
  shows "re_match_at ic r p s ma = None"
proof (cases "re_match_at ic r p s ma")
  case (Some m)
  from re_match_at_sound [OF Some] obtain w where "s = w @ rest m" "shape ic r w" by blast
  with assms shape_needs [of ic r w P] show ?thesis by auto
qed simp

lemma scan_needs:
  "needs ic P r \<Longrightarrow> \<forall>c\<in>set s. \<not> P c \<Longrightarrow> scan ic r p s ma = map Copy s"
proof (induction s arbitrary: p ma)
  case Nil
  then show ?case using re_match_at_needs [of ic P r "[]"] by simp
next
  case (Cons c cs)
  then show ?case using re_match_at_needs [of ic P r "c # cs" p ma] by simp
qed

lemma sub_tokens_Copy: "sub_tokens repl (map Copy s) = s"
  by (induction s) auto

lemma re_sub_needs:
  "needs ic P r \<Longrightarrow> \<forall>c\<in>set s. \<not> P c \<Longrightarrow> re_sub ic r repl s = s"
  by (simp add: re_sub_def scan_needs sub_tokens_Copy)

text \<open>A pattern that starts with a character of a class matches at no other character.\<close>

lemma re_match_at_starts:
  assumes "starts ic P r" and "s = [] \<or> \<not> P (hd s)"
  shows "re_match_at ic r p s ma = None"
proof (cases "re_match_at ic r p s ma")
  case (Some m)
  from re_match_at_sound [OF Some] obtain w where "s = w @ rest m" "shape ic r w" by blast
  with assms shape_starts [of ic r w P] show ?thesis by (auto simp: hd_append)
qed simp

lemma scan_starts:
  "starts ic P r \<Longrightarrow> \<forall>c\<in>set u. \<not> P c \<Longrightarrow> v \<noteq> []
     \<Longrightarrow> scan ic r p (u @ v) ma = map Copy u @ scan ic r (if u = [] then p else Some (last u)) v
           (if u = [] then ma else False)"
proof (induction u arbitrary: p ma)
  case Nil
  then show ?case by simp
next
  case (Cons c cs)
  then have "re_match_at ic r p (c # cs @ v) ma = None"
    using re_match_at_starts [of ic P r "c # cs @ v" p ma] by simp
  with Cons show ?case by simp
qed

subsection \<open>\<open>split\<close> and \<open>join\<close>\<close>

lemma split_on_not_Nil: "split_on d s \<noteq> []"
  by (induction s) (auto split: list.splits)

lemma join_Cons_line: "ls \<noteq> [] \<Longrightarrow> join sep ((c # l) # tl ls) = c # join sep (l # tl ls)"
  by (cases "tl ls") auto

lemma join_split_on: "join [d] (split_on d s) = s"
proof (induction s)
  case Nil
  then show ?case by simp
next
  case (Cons c cs)
  obtain l ls where sp: "split_on d cs = l # ls"
    using split_on_not_Nil [of d cs] by (cases "split_on d cs") auto
  have "join [d] ((c # l) # ls) = c # join [d] (l # ls)" by (cases ls) auto
  with Cons sp show ?case by auto
qed

lemma length_join_map:
  "(\<And>l. length (f l) \<le> length l) \<Longrightarrow> length (join sep (map f ls)) \<le> length (join sep ls)"
proof (induction sep ls rule: join.induct)
  case (3 sep l l' ls)
  then have "length (join sep (map f (l' # ls))) \<le> length (join sep (l' # ls))"
    and "length (f l) \<le> length l"
    by auto
  then show ?case by simp
qed auto

subsection \<open>Evaluation of the matcher on concrete texts\<close>

text \<open>The character classes on the characters of the examples.\<close>

lemma is_space_table:
  "list_all is_space [TAB, NL, CR, CHR '' '']"
  "list_all (\<lambda>c. \<not> is_space c)
     (''abcdefghijklmnopqrstuvwxyz'' @ ''ABCDEFGHIJKLMNOPQRSTUVWXYZ'' @ ''0123456789''
      @ ''_[]:<>.,-*'' @ [BT])"
  by (simp_all add: is_space_def char_code_def)

lemma is_word_table:
  "list_all is_word
     (''abcdefghijklmnopqrstuvwxyz'' @ ''ABCDEFGHIJKLMNOPQRSTUVWXYZ'' @ ''0123456789'' @ ''_'')"
  "list_all (\<lambda>c. \<not> is_word c) ([TAB, NL, CR, CHR '' '', BT] @ ''[]:<>.,-*'')"
  by (simp_all add: is_word_def char_code_def)

lemmas class_tables =
  is_space_table [simplified] is_word_table [simplified]

text \<open>
  The equations of the matcher at a state that is given by its constructor: the
  simplifier then unfolds a continuation only once it is applied.
\<close>

lemma mt_eval:
  "mt ic Eps (MState p s n cs li) k = k (MState p s n cs li)"
  "mt ic (Chr c) (MState p [] n cs li) k = None"
  "mt ic (Chr c) (MState p (x # xs) n cs li) k =
     (if chr_eq ic c x then k (MState (Some x) xs (Suc n) cs li) else None)"
  "mt ic (Cls P) (MState p [] n cs li) k = None"
  "mt ic (Cls P) (MState p (x # xs) n cs li) k =
     (if P x then k (MState (Some x) xs (Suc n) cs li) else None)"
  "mt ic (Seq r1 r2) (MState p s n cs li) k =
     mt ic r1 (MState p s n cs li) (\<lambda>st'. mt ic r2 st' k)"
  "mt ic (Alt r1 r2) (MState p s n cs li) k =
     (case mt ic r1 (MState p s n cs li) k of
        Some x \<Rightarrow> Some x | None \<Rightarrow> mt ic r2 (MState p s n cs li) k)"
  "mt ic (Star r) (MState p s n cs li) k = star_g (length s) (mt ic r) (MState p s n cs li) k"
  "mt ic (LazyStar r) (MState p s n cs li) k = star_l (length s) (mt ic r) (MState p s n cs li) k"
  "mt ic (Group g r) (MState p s n cs li) k =
     mt ic r (MState p s n cs li) (\<lambda>st'. k (MState (prev st') (rest st') (pos st')
        ((g, take (pos st' - n) s) # caps st') (Some g)))"
  "mt ic (Backref g) (MState p s n cs li) k =
     (case map_of cs g of None \<Rightarrow> None | Some w \<Rightarrow> backref_step ic w (MState p s n cs li) k)"
  "mt ic WordB (MState p s n cs li) k =
     (if word_boundary (MState p s n cs li) then k (MState p s n cs li) else None)"
  "mt ic (Look r) (MState p s n cs li) k =
     (case mt ic r (MState p s n cs li) Some of None \<Rightarrow> None | Some _ \<Rightarrow> k (MState p s n cs li))"
  "mt ic EndZ (MState p s n cs li) k = (if s = [] then k (MState p s n cs li) else None)"
  by (simp_all add: step_if_def)

lemma star_eval:
  "star_g 0 m (MState p s n cs li) k = k (MState p s n cs li)"
  "star_g (Suc j) m (MState p s n cs li) k =
     (case m (MState p s n cs li) (\<lambda>st'. if n < pos st' then star_g j m st' k else None) of
        Some x \<Rightarrow> Some x
      | None \<Rightarrow> k (MState p s n cs li))"
  "star_l 0 m (MState p s n cs li) k = k (MState p s n cs li)"
  "star_l (Suc j) m (MState p s n cs li) k =
     (case k (MState p s n cs li) of
        Some x \<Rightarrow> Some x
      | None \<Rightarrow> m (MState p s n cs li) (\<lambda>st'. if n < pos st' then star_l j m st' k else None))"
  by (simp_all cong: option.case_cong)

lemmas matcher_eval =
  re_sub_const_def re_sub_def re_finditer_def re_findall0_def re_findall1_def re_split_def
  re_search_def re_match_at_def chr_eq_def backref_step_def word_boundary_def
  group_def Plus_def Opt_def ws_def wd_def not_chr_def eval_nat_numeral class_tables
  mt_eval star_eval

lemmas matcher_simps = mt.simps star_g.simps star_l.simps

lemmas str_eval =
  strip_def lstrip_def rstrip_def append_line_def str_nat.simps digit_char_def

subsection \<open>The cache\<close>

text \<open>
  Claim C5. Two calls of \<open>compress_content\<close> with the same content, the same
  \<open>target_reduction\<close> and the same \<open>aggressive_mode\<close> return the same
  \<open>CompressionResult\<close>, all fields equal: after the first call the cache holds the result
  under the key of the call, and the second call (whatever its clock reads) returns that
  entry and leaves the cache as it is.
\<close>

theorem compress_content_cache_determinism:
  "snd (compress_content E T1 cache content target_reduction max_time aggressive_mode)
       (cache_key E content target_reduction aggressive_mode)
     = Some (fst (compress_content E T1 cache content target_reduction max_time
                    aggressive_mode))
   \<and> compress_content E T2
         (snd (compress_content E T1 cache content target_reduction max_time aggressive_mode))
         content target_reduction max_time aggressive_mode
     = compress_content E T1 cache content target_reduction max_time aggressive_mode"
  by (simp add: compress_content_def Let_def split: option.splits)


subsection \<open>A strategy that raises\<close>






subsection \<open>The preservation factor of \<open>semantic_condensation\<close> on the empty text\<close>

text \<open>
  Claim C9, at the empty text. The factor is \<open>max(0.95, 1 - 2 * (removed / len))\<close> with
  the length of the input as the divisor; on the empty text the division raises
  \<open>ZeroDivisionError\<close> and \<open>semantic_condensation\<close> returns no factor at all.
\<close>

theorem semantic_condensation_empty_raises:
  "semantic_condensation '''' = Inl ZeroDivisionError"
  by (simp add: semantic_condensation_def)

subsection \<open>The compression ratio\<close>


lemma compress_whitespace_three_lines: "compress_whitespace three_lines = (three_lines, 1)"
  by (simp add: compress_whitespace_def matcher_eval blank_run_def code_pattern_def rstrip_def
        three_lines_def del: matcher_simps)

lemma eliminate_redundancy_three_lines:
  "eliminate_redundancy three_lines = Inr (three_refs, 0.99)"
  by (simp add: eliminate_redundancy_def matcher_eval blank_run_def code_pattern_def
        redundant_patterns_def redundancy_repl_def str_eval three_lines_def three_refs_def
        del: matcher_simps)




subsection \<open>Whitespace optimization applied twice\<close>

lemma compress_whitespace_first_pass:
  "compress_whitespace placeholder_in_block = (first_pass, 1)"
  by (simp add: compress_whitespace_def matcher_eval blank_run_def code_pattern_def rstrip_def
        placeholder_in_block_def first_pass_def del: matcher_simps)

lemma compress_whitespace_second_pass:
  "compress_whitespace first_pass = (second_pass, 1)"
  by (simp add: compress_whitespace_def matcher_eval blank_run_def code_pattern_def rstrip_def
        first_pass_def second_pass_def del: matcher_simps)

text \<open>
  Claim C8 on the input \<open>placeholder_in_block\<close>. The first pass puts the second code
  block into the placeholder text that the first block holds, which moves \<open>c  d\<close> out of
  every code block; the second pass then collapses its two spaces, so applying the
  strategy twice differs from applying it once.
\<close>

theorem compress_whitespace_twice_differs:
  "fst (compress_whitespace placeholder_in_block) = first_pass
   \<and> fst (compress_whitespace (fst (compress_whitespace placeholder_in_block))) = second_pass
   \<and> second_pass \<noteq> first_pass"
  by (simp add: compress_whitespace_first_pass compress_whitespace_second_pass)
     (simp add: first_pass_def second_pass_def)

subsection \<open>The preservation factors\<close>

lemma minlen_lit: "minlen (lit s) = length s"
  by (induction s) auto

lemma condensation_patterns_shorter:
  "list_all (\<lambda>(verbose_pattern, concise_replacement).
      length concise_replacement \<le> minlen verbose_pattern) condensation_patterns"
  by (simp add: condensation_patterns_def phrase_def minlen_lit)

lemma foldl_re_sub_const_length:
  "list_all (\<lambda>(pattern, rep). length rep \<le> minlen pattern) ps
     \<Longrightarrow> length (foldl (\<lambda>c (pattern, rep). re_sub_const ic pattern rep c) s ps) \<le> length s"
proof (induction ps arbitrary: s)
  case Nil
  then show ?case by simp
next
  case (Cons a ps)
  obtain pattern rep where a: "a = (pattern, rep)" by (cases a)
  with Cons.prems have "length (re_sub_const ic pattern rep s) \<le> length s"
    using re_sub_const_length by simp
  moreover from Cons a
  have "length (foldl (\<lambda>c (pattern, rep). re_sub_const ic pattern rep c)
                  (re_sub_const ic pattern rep s) ps)
          \<le> length (re_sub_const ic pattern rep s)"
    by simp
  ultimately show ?case using a by simp
qed

lemma condense_line_length: "length (condense_line line) \<le> length line"
proof -
  have "length (re_sub_const False (Plus ws) '' '' (re_sub_const True filler_words [] line))
          \<le> length (re_sub_const True filler_words [] line)"
    by (rule re_sub_const_length) (simp add: Plus_def ws_def)
  also have "\<dots> \<le> length line"
    by (rule re_sub_const_length) simp
  finally show ?thesis by (simp add: condense_line_def Let_def)
qed

text \<open>
  \<open>semantic_condensation\<close> never lengthens its input: every phrase is replaced by a
  shorter one, a filler word by nothing and a run of whitespace by one space. On a
  non-empty input the factor is therefore \<open>max(0.95, 1 - 2 * (removed / len))\<close> with
  \<open>removed \<ge> 0\<close>, between 0.95 and 1.
\<close>

lemma semantic_condensation_factor:
  assumes "semantic_condensation content = Inr (content1, preservation)"
  shows "content \<noteq> [] \<and> length content1 \<le> length content
         \<and> preservation
             = max 0.95 (1 - 2 * (real (length content - length content1)
                                    / real (length content)))
         \<and> 0.95 \<le> preservation \<and> preservation \<le> 1"
proof -
  define c1 where "c1 = foldl (\<lambda>c (verbose_pattern, concise_replacement).
                      re_sub_const True verbose_pattern concise_replacement c)
               content condensation_patterns"
  define c2 where "c2 = join [NL] (map condense_line (split_on NL c1))"
  define n where "n = length content"
  define k where "k = length c2"
  have "length c2 \<le> length (join [NL] (split_on NL c1))"
    unfolding c2_def by (rule length_join_map) (rule condense_line_length)
  also have "\<dots> = length c1" by (simp add: join_split_on)
  also have "\<dots> \<le> length content"
    unfolding c1_def by (rule foldl_re_sub_const_length) (rule condensation_patterns_shorter)
  finally have le: "k \<le> n" by (simp add: k_def n_def)
  have sc: "semantic_condensation content
      = (if n = 0 then Inl ZeroDivisionError
         else Inr (c2, max 0.95 (1.0 - (real_of_int (int n - int k) / real n) * 2)))"
    unfolding semantic_condensation_def Let_def c1_def c2_def n_def k_def ..
  from assms sc have ne: "n \<noteq> 0" by (cases "n = 0") auto
  with assms sc have c2: "content1 = c2"
    and p: "preservation = max 0.95 (1.0 - (real_of_int (int n - int k) / real n) * 2)"
    by auto
  from le have "real_of_int (int n - int k) = real (n - k)"
    by (simp add: of_nat_diff)
  moreover have "real (n - k) / real n * 2 = 2 * (real (n - k) / real n)"
    by (rule mult.commute)
  ultimately have p': "preservation = max 0.95 (1 - 2 * (real (n - k) / real n))"
    using p by (simp only:)
  have "0 \<le> real (n - k) / real n" by simp
  then have "1 - 2 * (real (n - k) / real n) \<le> 1" by simp
  with p' have "preservation \<le> 1" and "0.95 \<le> preservation" by simp_all
  with ne le c2 p' show ?thesis by (simp add: n_def k_def)
qed

lemma apply_strategy_preservation:
  assumes "apply_strategy s c = Inr (c1, p)"
  shows "0 \<le> p \<and> p \<le> 1"
proof (cases s)
  case whitespace_optimization
  with assms show ?thesis by (auto simp: compress_whitespace_def Let_def)
next
  case redundancy_elimination
  with assms show ?thesis
    by (auto simp: eliminate_redundancy_def Let_def split: sum.splits)
next
  case semantic_condensation_s
  with assms semantic_condensation_factor [of c c1 p] show ?thesis by simp
next
  case pattern_abstraction_s
  with assms show ?thesis by (auto simp: pattern_abstraction_def Let_def)
next
  case context_deduplication_s
  with assms show ?thesis by (auto simp: context_deduplication_def Let_def min_def)
next
  case aggressive_compression_s
  with assms show ?thesis by (auto simp: aggressive_compression_def Let_def)
qed

subsection \<open>The running preservation score\<close>

lemma last_Cons_Cons: "last (a # b # xs) = last (b # xs)"
  by simp

lemma run_strategies_trace:
  "run_strategies n t max_time elapsed i ss st
     = last (st # run_trace n t max_time elapsed i ss st)"
proof (induction ss arbitrary: i st)
  case Nil
  then show ?case by simp
next
  case (Cons s ss)
  show ?case
  proof (cases "max_time \<le> int (elapsed i)")
    case True
    then show ?thesis by simp
  next
    case False
    show ?thesis
    proof (cases "apply_strategy s (compressed_content st)")
      case (Inl e)
      with False Cons.IH [of "Suc i" st] show ?thesis by simp
    next
      case (Inr cp)
      obtain c p where cp: "cp = (c, p)" by (cases cp)
      let ?st1 = "PState c (overall_preservation st * p) (methods st @ [s])"
      let ?tr = "run_trace n t max_time elapsed (Suc i) ss ?st1"
      show ?thesis
      proof (cases "n \<noteq> 0 \<and> t \<le> 1 - real (length c) / real n")
        case True
        with False Inr cp show ?thesis by (simp add: Let_def)
      next
        case go: False
        with False Inr cp
        have "run_strategies n t max_time elapsed i (s # ss) st
                = run_strategies n t max_time elapsed (Suc i) ss ?st1"
          and "run_trace n t max_time elapsed i (s # ss) st = ?st1 # ?tr"
          by (auto simp: Let_def)
        with Cons.IH [of "Suc i" ?st1] show ?thesis
          by (simp only: last_Cons_Cons)
      qed
    qed
  qed
qed

text \<open>
  Along the trace the score stays in \<open>[0, 1]\<close> and never exceeds the score before, and
  each state of the trace has one more name in \<open>method_used\<close>.
\<close>

lemma run_trace_scores:
  assumes "0 \<le> overall_preservation st" and "overall_preservation st \<le> 1"
  shows "(\<forall>st1 \<in> set (run_trace n t max_time elapsed i ss st).
            0 \<le> overall_preservation st1
            \<and> overall_preservation st1 \<le> overall_preservation st)
         \<and> sorted_wrt (\<ge>) (map overall_preservation (run_trace n t max_time elapsed i ss st))
         \<and> map (length \<circ> methods) (run_trace n t max_time elapsed i ss st)
             = [Suc (length (methods st))
                 ..< Suc (length (methods st))
                     + length (run_trace n t max_time elapsed i ss st)]"
    (is "?P i ss st")
  using assms
proof (induction ss arbitrary: i st)
  case Nil
  then show ?case by simp
next
  case (Cons s ss)
  show ?case
  proof (cases "max_time \<le> int (elapsed i)")
    case True
    then show ?thesis by simp
  next
    case False
    show ?thesis
    proof (cases "apply_strategy s (compressed_content st)")
      case (Inl e)
      with False
      have eq: "run_trace n t max_time elapsed i (s # ss) st
                  = run_trace n t max_time elapsed (Suc i) ss st"
        by simp
      from Cons.IH [of st "Suc i"] Cons.prems show ?thesis
        unfolding eq by blast
    next
      case (Inr cp)
      obtain c p where cp: "cp = (c, p)" by (cases cp)
      let ?st1 = "PState c (overall_preservation st * p) (methods st @ [s])"
      let ?tr = "run_trace n t max_time elapsed (Suc i) ss ?st1"
      from Inr cp apply_strategy_preservation have p: "0 \<le> p" "p \<le> 1" by auto
      with Cons.prems have b: "0 \<le> overall_preservation ?st1"
        "overall_preservation ?st1 \<le> overall_preservation st"
        "overall_preservation ?st1 \<le> 1"
        by (auto simp: mult_left_le mult_le_one intro: order_trans)
      have m1: "length (methods ?st1) = Suc (length (methods st))" by simp
      show ?thesis
      proof (cases "n \<noteq> 0 \<and> t \<le> 1 - real (length c) / real n")
        case True
        with False Inr cp
        have eq: "run_trace n t max_time elapsed i (s # ss) st = [?st1]"
          by (simp add: Let_def)
        from b show ?thesis unfolding eq by simp
      next
        case go: False
        with False Inr cp
        have eq: "run_trace n t max_time elapsed i (s # ss) st = ?st1 # ?tr"
          by (auto simp: Let_def)
        from Cons.IH [of ?st1 "Suc i", OF b(1) b(3)]
        have ih1: "\<forall>st2 \<in> set ?tr. 0 \<le> overall_preservation st2
                     \<and> overall_preservation st2 \<le> overall_preservation ?st1"
          and ih2: "sorted_wrt (\<ge>) (map overall_preservation ?tr)"
          and ih3: "map (length \<circ> methods) ?tr
                      = [Suc (length (methods ?st1))
                          ..< Suc (length (methods ?st1)) + length ?tr]"
          by blast+
        from ih1 b have g1: "\<forall>st2 \<in> set (?st1 # ?tr). 0 \<le> overall_preservation st2
            \<and> overall_preservation st2 \<le> overall_preservation st"
          by (auto intro: order_trans)
        from ih1 ih2 have g2: "sorted_wrt (\<ge>) (map overall_preservation (?st1 # ?tr))"
          by auto
        have "[Suc (length (methods st)) ..< Suc (length (methods st)) + length (?st1 # ?tr)]
                = Suc (length (methods st))
                  # [Suc (Suc (length (methods st)))
                      ..< Suc (length (methods st)) + length (?st1 # ?tr)]"
          by (rule upt_conv_Cons) simp
        with ih3 m1
        have g3: "map (length \<circ> methods) (?st1 # ?tr)
                = [Suc (length (methods st))
                    ..< Suc (length (methods st)) + length (?st1 # ?tr)]"
          by (simp del: upt_Suc)
        from g1 g2 g3 show ?thesis unfolding eq by blast
      qed
    qed
  qed
qed

text \<open>
  Claim C2. With \<open>trace\<close> the states of the loop of \<open>compress_content\<close> after each
  strategy whose name is appended to \<open>method_used\<close> (the state at index \<open>j\<close> has
  \<open>j + 1\<close> names), the running preservation score, which starts at 1.0, is non-increasing
  along the trace for every content and every configuration; on a cache miss the
  \<open>preservation_score\<close> of the result is the last of these scores and lies in \<open>[0, 1]\<close>.
\<close>

theorem preservation_score_non_increasing:
  "(let trace = run_trace (length content) target_reduction max_time (elapsed_seconds T) 0
                  (select_strategies target_reduction aggressive_mode) (PState content 1 [])
    in sorted_wrt (\<ge>) (1 # map overall_preservation trace)
       \<and> map (length \<circ> methods) trace = [1 ..< Suc (length trace)]
       \<and> (cache (cache_key E content target_reduction aggressive_mode) = None \<longrightarrow>
            preservation_score
                (fst (compress_content E T cache content target_reduction max_time
                        aggressive_mode))
              = overall_preservation (last (PState content 1 [] # trace))
            \<and> 0 \<le> preservation_score
                (fst (compress_content E T cache content target_reduction max_time
                        aggressive_mode))
            \<and> preservation_score
                (fst (compress_content E T cache content target_reduction max_time
                        aggressive_mode)) \<le> 1))"
proof -
  let ?st = "PState content 1 []"
  let ?tr = "run_trace (length content) target_reduction max_time (elapsed_seconds T) 0
               (select_strategies target_reduction aggressive_mode) ?st"
  have sc: "(\<forall>st1 \<in> set ?tr. 0 \<le> overall_preservation st1 \<and> overall_preservation st1 \<le> 1)
      \<and> sorted_wrt (\<ge>) (map overall_preservation ?tr)
      \<and> map (length \<circ> methods) ?tr = [1 ..< Suc (length ?tr)]"
    using run_trace_scores [of ?st "length content" target_reduction max_time
        "elapsed_seconds T" 0 "select_strategies target_reduction aggressive_mode"]
    by simp
  then have srt: "sorted_wrt (\<ge>) (1 # map overall_preservation ?tr)" by auto
  have "last (?st # ?tr) \<in> set (?st # ?tr)" by (rule last_in_set) simp
  with sc have fin: "0 \<le> overall_preservation (last (?st # ?tr))"
    "overall_preservation (last (?st # ?tr)) \<le> 1"
    by auto
  have res: "cache (cache_key E content target_reduction aggressive_mode) = None \<Longrightarrow>
      preservation_score
        (fst (compress_content E T cache content target_reduction max_time aggressive_mode))
      = overall_preservation (last (?st # ?tr))"
    by (simp add: compress_content_def Let_def run_strategies_trace)
  from sc srt fin res show ?thesis by (simp add: Let_def)
qed

theorem preservation_score_non_increasing_witness:
  "Map.empty (cache_key example_env three_lines 0.2 False) = None
   \<and> map overall_preservation
       (run_trace (length three_lines) 0.2 30 (elapsed_seconds example_clock) 0
          (select_strategies 0.2 False) (PState three_lines 1 [])) = [1, 0.99]
   \<and> sorted_wrt (\<ge>) (1 # map overall_preservation
       (run_trace (length three_lines) 0.2 30 (elapsed_seconds example_clock) 0
          (select_strategies 0.2 False) (PState three_lines 1 [])))
   \<and> 0 \<le> preservation_score
       (fst (compress_content example_env example_clock Map.empty three_lines 0.2 30 False))
   \<and> preservation_score
       (fst (compress_content example_env example_clock Map.empty three_lines 0.2 30 False))
     \<le> 1"
proof -
  have len: "length three_lines = 5" "length three_refs = 26"
    by (simp_all add: three_lines_def three_refs_def)
  have sel: "select_strategies 0.2 False = [whitespace_optimization, redundancy_elimination]"
    by (simp add: select_strategies_def)
  have tr: "run_trace (length three_lines) 0.2 30 (elapsed_seconds example_clock) 0
              (select_strategies 0.2 False) (PState three_lines 1 [])
            = [PState three_lines 1 [whitespace_optimization],
               PState three_refs 0.99 [whitespace_optimization, redundancy_elimination]]"
    by (simp only: sel)
       (simp add: example_clock_def compress_whitespace_three_lines
          eliminate_redundancy_three_lines len)
  have miss: "Map.empty (cache_key example_env three_lines 0.2 False) = None" by simp
  from preservation_score_non_increasing
    [of three_lines "0.2" 30 example_clock False Map.empty example_env, unfolded Let_def] miss
  have "sorted_wrt (\<ge>) (1 # map overall_preservation
       (run_trace (length three_lines) 0.2 30 (elapsed_seconds example_clock) 0
          (select_strategies 0.2 False) (PState three_lines 1 [])))
   \<and> 0 \<le> preservation_score
       (fst (compress_content example_env example_clock Map.empty three_lines 0.2 30 False))
   \<and> preservation_score
       (fst (compress_content example_env example_clock Map.empty three_lines 0.2 30 False))
     \<le> 1"
    by blast
  moreover have "map overall_preservation
       (run_trace (length three_lines) 0.2 30 (elapsed_seconds example_clock) 0
          (select_strategies 0.2 False) (PState three_lines 1 [])) = [1, 0.99]"
    by (simp only: tr) simp
  ultimately show ?thesis using miss by blast
qed



subsection \<open>Strategy selection\<close>

text \<open>
  Claim C4. The selected strategies are a function of \<open>target_reduction\<close> and
  \<open>aggressive_mode\<close> alone. In aggressive mode the list is aggressive compression,
  context deduplication, semantic condensation, whitespace optimization. Otherwise a
  target of at most 0.10 gives whitespace optimization alone, at most 0.20 adds
  redundancy elimination, at most 0.30 adds semantic condensation, and a larger target
  adds pattern abstraction; the list of each tier is a strict prefix of the list of the
  next.
\<close>

theorem select_strategies_tiers:
  "select_strategies t True =
     [aggressive_compression_s, context_deduplication_s,
      semantic_condensation_s, whitespace_optimization]
   \<and> select_strategies t False =
     (if t \<le> 0.10 then [whitespace_optimization]
      else if t \<le> 0.20 then [whitespace_optimization, redundancy_elimination]
      else if t \<le> 0.30 then
        [whitespace_optimization, redundancy_elimination, semantic_condensation_s]
      else [whitespace_optimization, redundancy_elimination,
            semantic_condensation_s, pattern_abstraction_s])
   \<and> (t1 \<le> 0.10 \<and> 0.10 < t2 \<and> t2 \<le> 0.20 \<and> 0.20 < t3 \<and> t3 \<le> 0.30 \<and> 0.30 < t4 \<longrightarrow>
        strict_prefix (select_strategies t1 False) (select_strategies t2 False)
      \<and> strict_prefix (select_strategies t2 False) (select_strategies t3 False)
      \<and> strict_prefix (select_strategies t3 False) (select_strategies t4 False))"
  by (simp add: select_strategies_def strict_prefix_def prefix_def)

theorem select_strategies_tiers_witness:
  "select_strategies 0.25 True =
     [aggressive_compression_s, context_deduplication_s,
      semantic_condensation_s, whitespace_optimization]
   \<and> select_strategies 0.25 False =
     [whitespace_optimization, redundancy_elimination, semantic_condensation_s]
   \<and> strict_prefix (select_strategies 0.05 False) (select_strategies 0.15 False)
   \<and> strict_prefix (select_strategies 0.15 False) (select_strategies 0.25 False)
   \<and> strict_prefix (select_strategies 0.25 False) (select_strategies 0.5 False)"
proof -
  have tiers: "(0.05::real) \<le> 0.10 \<and> (0.10::real) < 0.15 \<and> (0.15::real) \<le> 0.20
      \<and> (0.20::real) < 0.25 \<and> (0.25::real) \<le> 0.30 \<and> (0.30::real) < 0.5"
    by simp
  have "select_strategies 0.25 False =
      [whitespace_optimization, redundancy_elimination, semantic_condensation_s]"
    by (simp add: select_strategies_def)
  with tiers show ?thesis
    using select_strategies_tiers [of "0.25" "0.05" "0.15" "0.25" "0.5"] by blast
qed

end
